theory Spec2Isabelle
  imports Complex_Main
begin

section \<open>Field elements, constants and errors\<close>

text \<open>
  The module \<^verbatim>\<open>optimized_swu.py\<close> computes over \<^verbatim>\<open>FQ2\<close>, the quadratic extension
  field of BLS12-381, which it imports from \<^verbatim>\<open>py_ecc.fields\<close>; its constants come
  from \<^verbatim>\<open>.constants\<close>. Both modules lie outside this development, which is
  therefore parametric in both: a field element is a value of an arbitrary type
  \<open>'a\<close> of class \<open>field\<close> (\<open>+\<close>, \<open>-\<close>, \<open>*\<close>, \<open>**\<close> with a natural exponent as
  \<open>^\<close>, \<open>==\<close> as \<open>=\<close>), and every imported constant is a field of the record
  \<open>constants\<close> that each function takes as its first argument.

  Modelled from the spec: the method \<^verbatim>\<open>sgn0\<close> of \<^verbatim>\<open>FQ2\<close> is missing; the spec calls
  it a deterministic sign bit, a stable 0/1 classification, so it is a function into
  \<open>bool\<close>. The constructor \<^verbatim>\<open>FQ2([c0, c1])\<close> builds an element from two integer
  coefficients; it is the parameter \<open>FQ2\<close>.
\<close>

record 'a constants =
  ISO_3_A :: 'a
  ISO_3_B :: 'a
  ISO_3_Z :: 'a
  P_MINUS_9_DIV_16 :: nat
  EV1 :: int
  EV2 :: int
  ISO_3_MAP_COEFFICIENTS :: "'a list list"
  POSITIVE_EIGTH_ROOTS_OF_UNITY :: "'a list"
  FQ2 :: "int list \<Rightarrow> 'a"
  sgn0 :: "'a \<Rightarrow> bool"

text \<open>
  \<open>SWU_failure\<close> is the exception raised on the branch the source marks unreachable;
  \<open>IndexError\<close> is what Python raises on a list index out of range.
\<close>

datatype error = SWU_failure | IndexError

section \<open>Square root division\<close>

text \<open>
  The loop over the roots of unity, with the loop state \<open>(valid_root, result)\<close>;
  the loop variable \<^verbatim>\<open>root\<close> is written \<open>rt\<close>.
\<close>

fun roots_loop :: "'a::field \<Rightarrow> 'a \<Rightarrow> 'a \<Rightarrow> 'a list \<Rightarrow> bool \<times> 'a \<Rightarrow> bool \<times> 'a" where
  "roots_loop u v sqrt_candidate [] (valid_root, result) = (valid_root, result)"
| "roots_loop u v sqrt_candidate (rt # roots) (valid_root, result) =
     (let temp1 = rt * sqrt_candidate;
          temp2 = temp1 ^ 2 * v - u
      in if temp2 = 0 \<and> \<not> valid_root
         then roots_loop u v sqrt_candidate roots (True, temp1)
         else roots_loop u v sqrt_candidate roots (valid_root, result))"

definition sqrt_division_FQ2 :: "'a::field constants \<Rightarrow> 'a \<Rightarrow> 'a \<Rightarrow> bool \<times> 'a" where
  "sqrt_division_FQ2 c u v =
     (let temp1 = u * v ^ 7;
          temp2 = temp1 * v ^ 8;
          sqrt_candidate = temp2 ^ P_MINUS_9_DIV_16 c;
          sqrt_candidate = sqrt_candidate * temp1;
          valid_root = False;
          result = sqrt_candidate;
          roots = POSITIVE_EIGTH_ROOTS_OF_UNITY c
      in roots_loop u v sqrt_candidate roots (valid_root, result))"

section \<open>The optimized SWU map\<close>

definition positive_eta_roots :: "'a::field constants \<Rightarrow> 'a list" where
  "positive_eta_roots c =
     [FQ2 c [EV1 c, 0], FQ2 c [0, EV1 c], FQ2 c [EV2 c, EV2 c], FQ2 c [EV2 c, - EV2 c]]"

text \<open>
  The loop over \<^verbatim>\<open>enumerate(etas)\<close>, with the index \<open>i\<close> and the loop state
  \<open>(y, success_2)\<close>; the \<^verbatim>\<open>raise\<close> ends it with \<open>Inl SWU_failure\<close>.
\<close>

fun etas_loop ::
  "'a::field \<Rightarrow> 'a \<Rightarrow> 'a \<Rightarrow> bool \<Rightarrow> nat \<Rightarrow> 'a list \<Rightarrow> 'a \<times> bool \<Rightarrow> error + 'a \<times> bool" where
  "etas_loop sqrt_candidate u v success i [] (y, success_2) = Inr (y, success_2)"
| "etas_loop sqrt_candidate u v success i (eta # etas) (y, success_2) =
     (let temp1 = eta * sqrt_candidate;
          temp1 = temp1 ^ 2 * v - u
      in if temp1 = 0 \<and> \<not> success \<and> \<not> success_2
         then etas_loop sqrt_candidate u v success (Suc i) etas (sqrt_candidate * eta, True)
         else if i = 3 \<and> \<not> success \<and> \<not> success_2
         then Inl SWU_failure
         else etas_loop sqrt_candidate u v success (Suc i) etas (y, success_2))"

definition optimized_swu_G2 :: "'a::field constants \<Rightarrow> 'a \<Rightarrow> error + 'a \<times> 'a \<times> 'a" where
  "optimized_swu_G2 c t =
     (let t2 = t ^ 2;
          temp = ISO_3_Z c * t2;
          temp = temp + temp ^ 2;
          denominator = - (ISO_3_A c * temp);
          temp = temp + 1;
          numerator = ISO_3_B c * temp;
          denominator = (if denominator = 0 then ISO_3_Z c * ISO_3_A c else denominator);
          v = denominator ^ 3;
          u = numerator ^ 3 + ISO_3_A c * numerator * denominator ^ 2 + ISO_3_B c * v;
          (success, sqrt_candidate) = sqrt_division_FQ2 c u v;
          y = sqrt_candidate;
          sqrt_candidate = sqrt_candidate * t ^ 3;
          u = (ISO_3_Z c * t2) ^ 3 * u;
          success_2 = False;
          etas = positive_eta_roots c
      in case etas_loop sqrt_candidate u v success 0 etas (y, success_2) of
           Inl e \<Rightarrow> Inl e
         | Inr (y, success_2) \<Rightarrow>
             (let numerator = (if \<not> success then numerator * t2 * ISO_3_Z c else numerator);
                  y = (if sgn0 c t \<noteq> sgn0 c y then - y else y);
                  y = y * denominator
              in Inr (numerator, y, denominator)))"

section \<open>The 3-isogeny map\<close>

text \<open>
  The inner loop over \<^verbatim>\<open>enumerate(reversed(k_i[:-1]))\<close> reads and writes
  \<^verbatim>\<open>mapped_values[i]\<close> and reads \<^verbatim>\<open>z_powers[j]\<close>; the outer loop over
  \<^verbatim>\<open>enumerate(ISO_3_MAP_COEFFICIENTS)\<close> first stores \<^verbatim>\<open>k_i[-1:][0]\<close>, which
  raises on an empty \<^verbatim>\<open>k_i\<close>. Each index out of range is an \<open>IndexError\<close>.
\<close>

fun horner_loop ::
  "'a::field \<Rightarrow> 'a list \<Rightarrow> nat \<Rightarrow> nat \<Rightarrow> 'a list \<Rightarrow> 'a list \<Rightarrow> error + 'a list" where
  "horner_loop x z_powers i j [] mapped_values = Inr mapped_values"
| "horner_loop x z_powers i j (k_i_j # ks) mapped_values =
     (if i < length mapped_values \<and> j < length z_powers
      then horner_loop x z_powers i (Suc j) ks
             (mapped_values[i := mapped_values ! i * x + z_powers ! j * k_i_j])
      else Inl IndexError)"

fun coefficients_loop ::
  "'a::field \<Rightarrow> 'a list \<Rightarrow> nat \<Rightarrow> 'a list list \<Rightarrow> 'a list \<Rightarrow> error + 'a list" where
  "coefficients_loop x z_powers i [] mapped_values = Inr mapped_values"
| "coefficients_loop x z_powers i (k_i # ks) mapped_values =
     (if k_i = [] \<or> \<not> i < length mapped_values then Inl IndexError
      else case horner_loop x z_powers i 0 (rev (butlast k_i)) (mapped_values[i := last k_i]) of
             Inl e \<Rightarrow> Inl e
           | Inr mapped_values \<Rightarrow> coefficients_loop x z_powers (Suc i) ks mapped_values)"

definition iso_map_G2 :: "'a::field constants \<Rightarrow> 'a \<Rightarrow> 'a \<Rightarrow> 'a \<Rightarrow> error + 'a \<times> 'a \<times> 'a" where
  "iso_map_G2 c x y z =
     (let mapped_values = [0, 0, 0, 0];
          z_powers = [z, z ^ 2, z ^ 3]
      in case coefficients_loop x z_powers 0 (ISO_3_MAP_COEFFICIENTS c) mapped_values of
           Inl e \<Rightarrow> Inl e
         | Inr mapped_values \<Rightarrow>
             (let mapped_values = mapped_values[2 := mapped_values ! 2 * y];
                  mapped_values = mapped_values[3 := mapped_values ! 3 * z];
                  z_G2 = mapped_values ! 1 * mapped_values ! 3;
                  x_G2 = mapped_values ! 0 * mapped_values ! 3;
                  y_G2 = mapped_values ! 1 * mapped_values ! 2
              in Inr (x_G2, y_G2, z_G2)))"

section \<open>Named intermediate values and properties\<close>

text \<open>
  The values that \<^verbatim>\<open>optimized_swu_G2\<close> holds in its local variables
  \<^verbatim>\<open>denominator\<close>, \<^verbatim>\<open>numerator\<close>, \<^verbatim>\<open>v\<close> and \<^verbatim>\<open>u\<close> when it calls
  \<^verbatim>\<open>sqrt_division_FQ2\<close> (lines 27 to 41), as functions of the input. Lemma
  \<open>swu_unfold\<close> below shows that \<open>optimized_swu_G2\<close> computes with exactly these.
\<close>

definition swu_denominator :: "'a::field constants \<Rightarrow> 'a \<Rightarrow> 'a" where
  "swu_denominator c t =
     (let t2 = t ^ 2;
          temp = ISO_3_Z c * t2;
          temp = temp + temp ^ 2;
          denominator = - (ISO_3_A c * temp)
      in if denominator = 0 then ISO_3_Z c * ISO_3_A c else denominator)"

definition swu_numerator :: "'a::field constants \<Rightarrow> 'a \<Rightarrow> 'a" where
  "swu_numerator c t =
     (let t2 = t ^ 2;
          temp = ISO_3_Z c * t2;
          temp = temp + temp ^ 2;
          temp = temp + 1
      in ISO_3_B c * temp)"

definition swu_v :: "'a::field constants \<Rightarrow> 'a \<Rightarrow> 'a" where
  "swu_v c t = swu_denominator c t ^ 3"

definition swu_u :: "'a::field constants \<Rightarrow> 'a \<Rightarrow> 'a" where
  "swu_u c t =
     swu_numerator c t ^ 3 + ISO_3_A c * swu_numerator c t * swu_denominator c t ^ 2
       + ISO_3_B c * swu_v c t"

text \<open>
  The test of the loop over the eta values (lines 56 to 58):
  \<open>(eta * (y0 * t ^ 3)) ^ 2 * v - (Z * t ^ 2) ^ 3 * u = 0\<close>, where \<open>y0\<close> is the
  candidate that the square root division returned.
\<close>

definition eta_matches :: "'a::field constants \<Rightarrow> 'a \<Rightarrow> 'a \<Rightarrow> bool" where
  "eta_matches c t eta \<longleftrightarrow>
     (eta * (snd (sqrt_division_FQ2 c (swu_u c t) (swu_v c t)) * t ^ 3)) ^ 2 * swu_v c t
       - (ISO_3_Z c * t ^ 2) ^ 3 * swu_u c t = 0"

text \<open>The sign canonicalization of lines 68 and 69.\<close>

definition canonical_sign :: "'a::field constants \<Rightarrow> 'a \<Rightarrow> 'a \<Rightarrow> 'a" where
  "canonical_sign c t y = (if sgn0 c t \<noteq> sgn0 c y then - y else y)"

text \<open>
  Membership of a projective triple in the isogenous curve, in affine terms:
  \<open>(Y / Z)\<^sup>2 = (X / Z)\<^sup>3 + A * (X / Z) + B\<close>.
\<close>

definition on_iso_curve :: "'a::field constants \<Rightarrow> 'a \<times> 'a \<times> 'a \<Rightarrow> bool" where
  "on_iso_curve c p =
     (case p of (X, Y, Z) \<Rightarrow> (Y / Z) ^ 2 = (X / Z) ^ 3 + ISO_3_A c * (X / Z) + ISO_3_B c)"

text \<open>
  A property of the constant tables alone: with the exceptional denominator \<open>Z * A\<close>
  (and the numerator \<open>B\<close> that goes with it), the square root division succeeds. It says
  that \<open>g (B / (Z * A))\<close> is a square whose root the table of roots of unity finds.
  The values of the constants lie outside this development, so lemmas that depend on
  the exceptional case take this property as a hypothesis.
\<close>

definition exceptional_root_found :: "'a::field constants \<Rightarrow> bool" where
  "exceptional_root_found c =
     (let denominator = ISO_3_Z c * ISO_3_A c;
          numerator = ISO_3_B c;
          v = denominator ^ 3;
          u = numerator ^ 3 + ISO_3_A c * numerator * denominator ^ 2 + ISO_3_B c * v
      in fst (sqrt_division_FQ2 c u v))"

text \<open>
  The homogenized polynomial of a coefficient list in ascending degree, as the
  specification words it: the sum over \<open>j\<close> of \<open>coeff j * x ^ j * z ^ (d - j)\<close>, where
  \<open>d = length k - 1\<close> is the degree.
\<close>

definition homogenized :: "'a::field list \<Rightarrow> 'a \<Rightarrow> 'a \<Rightarrow> 'a" where
  "homogenized k x z = (\<Sum>j<length k. k ! j * x ^ j * z ^ (length k - 1 - j))"

text \<open>
  The shape of the coefficient table under which \<^verbatim>\<open>iso_map_G2\<close> raises no
  \<^verbatim>\<open>IndexError\<close>: four rows, each with one to four coefficients.
\<close>

definition coefficients_well_formed :: "'a list list \<Rightarrow> bool" where
  "coefficients_well_formed ks \<longleftrightarrow>
     length ks = 4 \<and> list_all (\<lambda>k. k \<noteq> [] \<and> length k \<le> 4) ks"

section \<open>An instance over the rationals\<close>

text \<open>
  A small set of constants over \<open>rat\<close>, on which every function can be evaluated: the
  curve \<open>y\<^sup>2 = x\<^sup>3 + 5 * x + 10\<close> with \<open>Z = - 2\<close> and the exponent \<open>1\<close>. The input
  \<open>0\<close> takes the exceptional denominator, \<open>1 / 2\<close> the primary square root, \<open>1\<close> and
  \<open>- 1\<close> the fourth eta value, and \<open>2\<close> reaches the \<^verbatim>\<open>raise\<close>.
\<close>

definition example_constants :: "rat constants" where
  "example_constants =
     \<lparr>ISO_3_A = 5, ISO_3_B = 10, ISO_3_Z = - 2, P_MINUS_9_DIV_16 = 1, EV1 = 1, EV2 = 1,
      ISO_3_MAP_COEFFICIENTS = [[1, 2, 3, 4], [5, 6, 1], [7, 8, 9, 1], [2, 3, 4, 1]],
      POSITIVE_EIGTH_ROOTS_OF_UNITY = [1, 1 / (8 * 10 ^ 72), 2 ^ 132 / 5 ^ 72],
      FQ2 = (\<lambda>cs. (of_int (cs ! 0) + 3 * of_int (cs ! 1)) / (128 * 10 ^ 72)),
      sgn0 = (\<lambda>x. x < 0)\<rparr>"

section \<open>Properties of the square root division\<close>

lemma roots_loop_found: "roots_loop u v sc roots (True, res) = (True, res)"
  by (induction roots) simp_all

text \<open>The loop returns the first root of the table that passes the test, if there is one.\<close>

lemma roots_loop_find:
  "roots_loop u v sc roots (False, res) =
     (case List.find (\<lambda>rt. (rt * sc) ^ 2 * v - u = 0) roots of
        None \<Rightarrow> (False, res)
      | Some rt \<Rightarrow> (True, rt * sc))"
  by (induction roots) (simp_all add: roots_loop_found Let_def)

lemma sqrt_division_FQ2_find:
  "sqrt_division_FQ2 c u v =
     (let c0 = (u * v ^ 7 * v ^ 8) ^ P_MINUS_9_DIV_16 c * (u * v ^ 7)
      in case List.find (\<lambda>rt. (rt * c0) ^ 2 * v - u = 0) (POSITIVE_EIGTH_ROOTS_OF_UNITY c) of
           None \<Rightarrow> (False, c0)
         | Some rt \<Rightarrow> (True, rt * c0))"
  by (simp add: sqrt_division_FQ2_def Let_def roots_loop_find)

lemma sqrt_division_FQ2_sound:
  "fst (sqrt_division_FQ2 c u v) \<Longrightarrow> (snd (sqrt_division_FQ2 c u v)) ^ 2 * v = u"
proof -
  let ?c0 = "(u * v ^ 7 * v ^ 8) ^ P_MINUS_9_DIV_16 c * (u * v ^ 7)"
  let ?P = "\<lambda>rt. (rt * ?c0) ^ 2 * v - u = 0"
  assume a: "fst (sqrt_division_FQ2 c u v)"
  show ?thesis
  proof (cases "List.find ?P (POSITIVE_EIGTH_ROOTS_OF_UNITY c)")
    case None
    with a show ?thesis by (simp add: sqrt_division_FQ2_find Let_def)
  next
    case (Some rt)
    then have "?P rt" by (auto simp: find_Some_iff)
    with Some show ?thesis by (simp add: sqrt_division_FQ2_find Let_def)
  qed
qed

lemma example_roots:
  "POSITIVE_EIGTH_ROOTS_OF_UNITY example_constants = [1, 1 / (8 * 10 ^ 72), 2 ^ 132 / 5 ^ 72]"
  "P_MINUS_9_DIV_16 example_constants = 1"
  by (simp_all add: example_constants_def)

lemma example_sqrt_0: "sqrt_division_FQ2 example_constants (- 4000) (- 1000) = (True, 2)"
  by (simp add: sqrt_division_FQ2_def example_constants_def Let_def)

text \<open>
  C2. For all field elements \<open>u\<close> and \<open>v\<close> with \<open>v\<close> nonzero: if the square root division
  returns \<open>(True, r)\<close>, then \<open>r\<close> is the product of a root of the precomputed table and
  the candidate \<open>(u * v\<^sup>7 * v\<^sup>8) ^ e * (u * v\<^sup>7)\<close>, and \<open>r\<^sup>2 * v - u = 0\<close>, so that
  \<open>r\<close> is a genuine square root of \<open>u / v\<close>.
\<close>

theorem sqrt_division_FQ2_genuine_root:
  assumes "v \<noteq> 0" and "sqrt_division_FQ2 c u v = (True, r)"
  shows "(\<exists>rt \<in> set (POSITIVE_EIGTH_ROOTS_OF_UNITY c).
            r = rt * ((u * v ^ 7 * v ^ 8) ^ P_MINUS_9_DIV_16 c * (u * v ^ 7)))
         \<and> r ^ 2 * v - u = 0 \<and> r ^ 2 = u / v"
proof -
  let ?c0 = "(u * v ^ 7 * v ^ 8) ^ P_MINUS_9_DIV_16 c * (u * v ^ 7)"
  let ?P = "\<lambda>rt. (rt * ?c0) ^ 2 * v - u = 0"
  from assms(2) obtain rt where f: "List.find ?P (POSITIVE_EIGTH_ROOTS_OF_UNITY c) = Some rt"
    and r: "r = rt * ?c0"
    by (auto simp: sqrt_division_FQ2_find Let_def split: option.splits)
  from f have "rt \<in> set (POSITIVE_EIGTH_ROOTS_OF_UNITY c)" and m: "?P rt"
    by (auto simp: find_Some_iff)
  moreover from m r have z: "r ^ 2 * v - u = 0" by simp
  moreover from z assms(1) have "r ^ 2 = u / v" by (simp add: field_simps)
  ultimately show ?thesis using r by blast
qed

theorem sqrt_division_FQ2_genuine_root_witness:
  "(- 1000 :: rat) \<noteq> 0 \<and> sqrt_division_FQ2 example_constants (- 4000) (- 1000) = (True, 2)
   \<and> (\<exists>rt \<in> set (POSITIVE_EIGTH_ROOTS_OF_UNITY example_constants).
         2 = rt * ((- 4000 * (- 1000) ^ 7 * (- 1000) ^ 8) ^ P_MINUS_9_DIV_16 example_constants
                    * (- 4000 * (- 1000) ^ 7)))
   \<and> (2 :: rat) ^ 2 * (- 1000) - (- 4000) = 0 \<and> (2 :: rat) ^ 2 = (- 4000) / (- 1000)"
  using sqrt_division_FQ2_genuine_root[of "- 1000" example_constants "- 4000" 2] example_sqrt_0
  by simp

text \<open>
  C3. The square root division computes the candidate
  \<open>c0 = (u * v\<^sup>7 * v\<^sup>8) ^ e * (u * v\<^sup>7)\<close> with \<open>e = P_MINUS_9_DIV_16\<close>. If no root of the
  table passes the test \<open>(rt * c0)\<^sup>2 * v - u = 0\<close>, it returns \<open>(False, c0)\<close>, the
  candidate unmodified. If a root passes the test and no root before it in the table
  does, it returns \<open>(True, rt * c0)\<close> for that root, whatever the roots after it do: a
  later match never overwrites the first.
\<close>

theorem sqrt_division_FQ2_first_match:
  "let c0 = (u * v ^ 7 * v ^ 8) ^ P_MINUS_9_DIV_16 c * (u * v ^ 7);
       roots = POSITIVE_EIGTH_ROOTS_OF_UNITY c
   in ((\<forall>rt \<in> set roots. (rt * c0) ^ 2 * v - u \<noteq> 0)
          \<longrightarrow> sqrt_division_FQ2 c u v = (False, c0))
      \<and> (\<forall>pre rt post.
            roots = pre @ rt # post
            \<and> (\<forall>q \<in> set pre. (q * c0) ^ 2 * v - u \<noteq> 0) \<and> (rt * c0) ^ 2 * v - u = 0
          \<longrightarrow> sqrt_division_FQ2 c u v = (True, rt * c0))"
proof -
  let ?c0 = "(u * v ^ 7 * v ^ 8) ^ P_MINUS_9_DIV_16 c * (u * v ^ 7)"
  let ?P = "\<lambda>rt. (rt * ?c0) ^ 2 * v - u = 0"
  let ?roots = "POSITIVE_EIGTH_ROOTS_OF_UNITY c"
  have none: "sqrt_division_FQ2 c u v = (False, ?c0)" if "\<forall>rt \<in> set ?roots. \<not> ?P rt"
  proof -
    from that have "List.find ?P ?roots = None" by (simp add: find_None_iff)
    then show ?thesis by (simp add: sqrt_division_FQ2_find)
  qed
  have first: "sqrt_division_FQ2 c u v = (True, rt * ?c0)"
    if "?roots = pre @ rt # post \<and> (\<forall>q \<in> set pre. \<not> ?P q) \<and> ?P rt" for pre rt post
  proof -
    from that have "List.find ?P ?roots = Some rt"
      by (auto simp: find_Some_iff nth_append intro!: exI[of _ "length pre"])
    then show ?thesis by (simp add: sqrt_division_FQ2_find)
  qed
  from none first show ?thesis unfolding Let_def by blast
qed

theorem sqrt_division_FQ2_first_match_witness:
  "\<not> (\<exists>rt \<in> set (POSITIVE_EIGTH_ROOTS_OF_UNITY example_constants).
        (rt * (1024 * 10 ^ 72)) ^ 2 * (- 1000) - 32000 = 0)
   \<and> sqrt_division_FQ2 example_constants 32000 (- 1000) = (False, 1024 * 10 ^ 72)
   \<and> POSITIVE_EIGTH_ROOTS_OF_UNITY example_constants
       = [1] @ (1 / (8 * 10 ^ 72)) # [2 ^ 132 / 5 ^ 72]
   \<and> \<not> (\<exists>q \<in> set [1]. (q * (16 * 10 ^ 72)) ^ 2 * (- 1000) - (- 4000 :: rat) = 0)
   \<and> (1 / (8 * 10 ^ 72) * (16 * 10 ^ 72)) ^ 2 * (- 1000) - (- 4000 :: rat) = 0
   \<and> sqrt_division_FQ2 example_constants (- 4000) (- 1000)
       = (True, 1 / (8 * 10 ^ 72) * (16 * 10 ^ 72))"
proof -
  have a: "\<forall>rt \<in> set (POSITIVE_EIGTH_ROOTS_OF_UNITY example_constants).
      (rt * (1024 * 10 ^ 72)) ^ 2 * (- 1000) - 32000 \<noteq> 0"
    by (simp add: example_roots power_mult_distrib power_divide)
  have c1: "(32000 * (- 1000) ^ 7 * (- 1000) ^ 8) ^ P_MINUS_9_DIV_16 example_constants
              * (32000 * (- 1000) ^ 7) = (1024 * 10 ^ 72 :: rat)"
    by (simp add: example_roots)
  have c0: "(- 4000 * (- 1000) ^ 7 * (- 1000) ^ 8) ^ P_MINUS_9_DIV_16 example_constants
              * (- 4000 * (- 1000) ^ 7) = (16 * 10 ^ 72 :: rat)"
    by (simp add: example_roots)
  have b: "POSITIVE_EIGTH_ROOTS_OF_UNITY example_constants
       = [1] @ (1 / (8 * 10 ^ 72)) # [2 ^ 132 / 5 ^ 72]"
    by (simp add: example_roots)
  have d: "\<forall>q \<in> set [1]. (q * (16 * 10 ^ 72)) ^ 2 * (- 1000) - (- 4000 :: rat) \<noteq> 0"
    by simp
  have e: "(1 / (8 * 10 ^ 72) * (16 * 10 ^ 72)) ^ 2 * (- 1000) - (- 4000 :: rat) = 0"
    by simp
  from sqrt_division_FQ2_first_match[of 32000 "- 1000" example_constants, unfolded Let_def c1] a
  have f: "sqrt_division_FQ2 example_constants 32000 (- 1000) = (False, 1024 * 10 ^ 72)"
    by blast
  from sqrt_division_FQ2_first_match[of "- 4000" "- 1000" example_constants, unfolded Let_def c0]
    b d e
  have g: "sqrt_division_FQ2 example_constants (- 4000) (- 1000)
       = (True, 1 / (8 * 10 ^ 72) * (16 * 10 ^ 72))"
    by blast
  from a b d e f g show ?thesis by blast
qed

section \<open>The shape of a run of the SWU map\<close>

lemma etas_loop_resolved:
  "etas_loop sc u v success i etas (y, True) = Inr (y, True)"
  by (induction etas arbitrary: i) (simp_all add: Let_def)

lemma etas_loop_success:
  "etas_loop sc u v True i etas (y, success_2) = Inr (y, success_2)"
  by (induction etas arbitrary: i) (simp_all add: Let_def)

text \<open>
  Over four eta values, starting at index \<open>0\<close> with the primary branch failed, the loop
  takes the first value that passes the test and raises when there is none.
\<close>

lemma etas_loop_four:
  "etas_loop sc u v False 0 [e0, e1, e2, e3] (y, False) =
     (case List.find (\<lambda>eta. (eta * sc) ^ 2 * v - u = 0) [e0, e1, e2, e3] of
        None \<Rightarrow> Inl SWU_failure
      | Some eta \<Rightarrow> Inr (sc * eta, True))"
  by (simp add: Let_def etas_loop_resolved)

lemma swu_unfold:
  "optimized_swu_G2 c t =
     (case sqrt_division_FQ2 c (swu_u c t) (swu_v c t) of
        (success, y0) \<Rightarrow>
          (case etas_loop (y0 * t ^ 3) ((ISO_3_Z c * t ^ 2) ^ 3 * swu_u c t) (swu_v c t) success 0
                  (positive_eta_roots c) (y0, False) of
             Inl e \<Rightarrow> Inl e
           | Inr (y, success_2) \<Rightarrow>
               Inr (if \<not> success then swu_numerator c t * t ^ 2 * ISO_3_Z c else swu_numerator c t,
                    canonical_sign c t y * swu_denominator c t, swu_denominator c t)))"
  unfolding optimized_swu_G2_def swu_u_def swu_v_def swu_numerator_def swu_denominator_def
    canonical_sign_def Let_def
  by (rule refl)

lemma optimized_swu_G2_cases:
  "optimized_swu_G2 c t =
     (let D = swu_denominator c t;
          N = swu_numerator c t;
          r = sqrt_division_FQ2 c (swu_u c t) (swu_v c t)
      in if fst r then Inr (N, canonical_sign c t (snd r) * D, D)
         else case List.find (eta_matches c t) (positive_eta_roots c) of
                None \<Rightarrow> Inl SWU_failure
              | Some eta \<Rightarrow>
                  Inr (N * t ^ 2 * ISO_3_Z c, canonical_sign c t (snd r * t ^ 3 * eta) * D, D))"
proof (cases "sqrt_division_FQ2 c (swu_u c t) (swu_v c t)")
  case (Pair success y0)
  have em: "eta_matches c t = (\<lambda>eta. (eta * (y0 * t ^ 3)) ^ 2 * swu_v c t
       - (ISO_3_Z c * t ^ 2) ^ 3 * swu_u c t = 0)"
    by (rule ext) (simp add: eta_matches_def Pair)
  show ?thesis
  proof (cases success)
    case True
    with Pair show ?thesis
      by (simp add: swu_unfold etas_loop_success Let_def)
  next
    case False
    let ?sc = "y0 * t ^ 3"
    have loop: "etas_loop ?sc ((ISO_3_Z c * t ^ 2) ^ 3 * swu_u c t) (swu_v c t) False 0
                  (positive_eta_roots c) (y0, False) =
                (case List.find (eta_matches c t) (positive_eta_roots c) of
                   None \<Rightarrow> Inl SWU_failure
                 | Some eta \<Rightarrow> Inr (?sc * eta, True))"
      unfolding positive_eta_roots_def etas_loop_four em ..
    show ?thesis
      by (cases "List.find (eta_matches c t) (positive_eta_roots c)")
         (simp_all add: swu_unfold Pair False loop Let_def)
  qed
qed

lemma swu_denominator_cases:
  "swu_denominator c t =
     (if - (ISO_3_A c * (ISO_3_Z c * t ^ 2 + ISO_3_Z c ^ 2 * t ^ 4)) = 0
      then ISO_3_Z c * ISO_3_A c
      else - (ISO_3_A c * (ISO_3_Z c * t ^ 2 + ISO_3_Z c ^ 2 * t ^ 4)))"
proof -
  have "(ISO_3_Z c * t ^ 2) ^ 2 = ISO_3_Z c ^ 2 * t ^ 4"
    by (simp add: power_mult_distrib)
  then show ?thesis
    by (simp add: swu_denominator_def Let_def)
qed

lemma swu_returns_denominator:
  "optimized_swu_G2 c t = Inr (X, Y, Zc) \<Longrightarrow> Zc = swu_denominator c t"
  by (auto simp: optimized_swu_G2_cases Let_def split: if_splits option.splits)

lemma swu_exceptional_values:
  assumes "ISO_3_A c * (ISO_3_Z c * t ^ 2 + (ISO_3_Z c * t ^ 2) ^ 2) = 0"
    and "ISO_3_Z c * ISO_3_A c \<noteq> 0"
  shows "swu_denominator c t = ISO_3_Z c * ISO_3_A c"
    and "swu_numerator c t = ISO_3_B c"
    and "fst (sqrt_division_FQ2 c (swu_u c t) (swu_v c t)) = exceptional_root_found c"
proof -
  from assms have s: "ISO_3_Z c * t ^ 2 + (ISO_3_Z c * t ^ 2) ^ 2 = 0" by auto
  show D: "swu_denominator c t = ISO_3_Z c * ISO_3_A c"
    using assms(1) by (simp add: swu_denominator_def Let_def)
  show N: "swu_numerator c t = ISO_3_B c"
    using s by (simp add: swu_numerator_def Let_def)
  show "fst (sqrt_division_FQ2 c (swu_u c t) (swu_v c t)) = exceptional_root_found c"
    by (simp add: exceptional_root_found_def Let_def swu_u_def swu_v_def D N)
qed

section \<open>Curve membership\<close>

lemma canonical_sign_square: "(canonical_sign c t y) ^ 2 = y ^ 2"
  by (simp add: canonical_sign_def)

lemma curve_from_square:
  fixes D :: "'a::field"
  assumes "D \<noteq> 0" and "y ^ 2 * D ^ 3 = X ^ 3 + ISO_3_A c * X * D ^ 2 + ISO_3_B c * D ^ 3"
  shows "on_iso_curve c (X, canonical_sign c t y * D, D)"
proof -
  have "(canonical_sign c t y * D / D) ^ 2 = y ^ 2"
    using assms(1) by (simp add: canonical_sign_square)
  also have "\<dots> = (X ^ 3 + ISO_3_A c * X * D ^ 2 + ISO_3_B c * D ^ 3) / D ^ 3"
    using assms by (simp add: field_simps)
  also have "\<dots> = (X / D) ^ 3 + ISO_3_A c * (X / D) + ISO_3_B c"
    using assms(1) by (simp add: field_simps power2_eq_square power3_eq_cube)
  finally show ?thesis by (simp add: on_iso_curve_def)
qed

text \<open>
  The identity behind the second candidate: with \<open>w = Z * t\<^sup>2\<close>, the numerator
  \<open>N = B * (w + w\<^sup>2 + 1)\<close> and the denominator \<open>D = - A * (w + w\<^sup>2)\<close>, the cubic at
  \<open>w * N / D\<close> is \<open>w\<^sup>3\<close> times the cubic at \<open>N / D\<close>, here with the denominators cleared.
\<close>

lemma swu_identity:
  fixes A B w :: "'a::field"
  defines "D \<equiv> - (A * (w + w ^ 2))" and "N \<equiv> B * (w + w ^ 2 + 1)"
  shows "w ^ 3 * (N ^ 3 + A * N * D ^ 2 + B * D ^ 3) = (N * w) ^ 3 + A * (N * w) * D ^ 2 + B * D ^ 3"
  unfolding D_def N_def by algebra

lemma swu_primary_on_curve:
  assumes "fst (sqrt_division_FQ2 c (swu_u c t) (swu_v c t))" and "swu_denominator c t \<noteq> 0"
  shows "on_iso_curve c (swu_numerator c t,
           canonical_sign c t (snd (sqrt_division_FQ2 c (swu_u c t) (swu_v c t))) * swu_denominator c t,
           swu_denominator c t)"
proof (rule curve_from_square[OF assms(2)])
  from sqrt_division_FQ2_sound[OF assms(1)]
  show "(snd (sqrt_division_FQ2 c (swu_u c t) (swu_v c t)))\<^sup>2 * swu_denominator c t ^ 3 =
    swu_numerator c t ^ 3 + ISO_3_A c * swu_numerator c t * (swu_denominator c t)\<^sup>2 +
    ISO_3_B c * swu_denominator c t ^ 3"
    by (simp add: swu_u_def swu_v_def)
qed

lemma swu_alternate_on_curve:
  assumes em: "eta_matches c t eta"
    and ne: "ISO_3_A c * (ISO_3_Z c * t ^ 2 + (ISO_3_Z c * t ^ 2) ^ 2) \<noteq> 0"
  shows "on_iso_curve c (swu_numerator c t * t ^ 2 * ISO_3_Z c,
           canonical_sign c t (snd (sqrt_division_FQ2 c (swu_u c t) (swu_v c t)) * t ^ 3 * eta)
             * swu_denominator c t,
           swu_denominator c t)"
proof -
  let ?w = "ISO_3_Z c * t ^ 2"
  let ?y0 = "snd (sqrt_division_FQ2 c (swu_u c t) (swu_v c t))"
  let ?D = "swu_denominator c t"
  let ?N = "swu_numerator c t"
  have D: "?D = - (ISO_3_A c * (?w + ?w ^ 2))"
    using ne by (simp add: swu_denominator_def Let_def)
  have N: "?N = ISO_3_B c * (?w + ?w ^ 2 + 1)"
    by (simp add: swu_numerator_def Let_def)
  have Dnz: "?D \<noteq> 0" using ne D by simp
  have "(?y0 * t ^ 3 * eta) ^ 2 * ?D ^ 3 = ?w ^ 3 * swu_u c t"
    using em by (simp add: eta_matches_def swu_v_def mult.commute mult.left_commute)
  also have "\<dots> = ?w ^ 3 * (?N ^ 3 + ISO_3_A c * ?N * ?D ^ 2 + ISO_3_B c * ?D ^ 3)"
    by (simp add: swu_u_def swu_v_def)
  also have "\<dots> = (?N * ?w) ^ 3 + ISO_3_A c * (?N * ?w) * ?D ^ 2 + ISO_3_B c * ?D ^ 3"
    unfolding D N by (rule swu_identity)
  finally have "(?y0 * t ^ 3 * eta) ^ 2 * ?D ^ 3 =
      (?N * t ^ 2 * ISO_3_Z c) ^ 3 + ISO_3_A c * (?N * t ^ 2 * ISO_3_Z c) * ?D ^ 2 + ISO_3_B c * ?D ^ 3"
    by (simp add: mult.commute mult.left_commute)
  from curve_from_square[OF Dnz this] show ?thesis .
qed

text \<open>
  Every returned triple with a nonzero third component is on the curve: outside the
  exceptional case whatever the constants are, and in the exceptional case once the
  constants make it succeed on the primary branch.
\<close>

lemma swu_returned_on_curve:
  assumes ret: "optimized_swu_G2 c t = Inr (X, Y, Zc)"
    and nz: "Zc \<noteq> 0"
    and exc: "exceptional_root_found c
               \<or> ISO_3_A c * (ISO_3_Z c * t ^ 2 + (ISO_3_Z c * t ^ 2) ^ 2) \<noteq> 0"
  shows "on_iso_curve c (X, Y, Zc)"
proof -
  let ?r = "sqrt_division_FQ2 c (swu_u c t) (swu_v c t)"
  have Zc: "Zc = swu_denominator c t" using ret by (rule swu_returns_denominator)
  show ?thesis
  proof (cases "fst ?r")
    case True
    with ret have "X = swu_numerator c t"
      and "Y = canonical_sign c t (snd ?r) * swu_denominator c t"
      by (auto simp: optimized_swu_G2_cases Let_def)
    with swu_primary_on_curve[OF True] nz Zc show ?thesis by simp
  next
    case False
    with ret obtain eta where f: "List.find (eta_matches c t) (positive_eta_roots c) = Some eta"
      and X: "X = swu_numerator c t * t ^ 2 * ISO_3_Z c"
      and Y: "Y = canonical_sign c t (snd ?r * t ^ 3 * eta) * swu_denominator c t"
      by (auto simp: optimized_swu_G2_cases Let_def split: option.splits)
    from f have em: "eta_matches c t eta" by (auto simp: find_Some_iff)
    have ne: "ISO_3_A c * (ISO_3_Z c * t ^ 2 + (ISO_3_Z c * t ^ 2) ^ 2) \<noteq> 0"
    proof
      assume z: "ISO_3_A c * (ISO_3_Z c * t ^ 2 + (ISO_3_Z c * t ^ 2) ^ 2) = 0"
      then have "swu_denominator c t = ISO_3_Z c * ISO_3_A c"
        by (simp add: swu_denominator_def Let_def)
      with nz Zc have "ISO_3_Z c * ISO_3_A c \<noteq> 0" by simp
      from swu_exceptional_values(3)[OF z this] exc z False show False by simp
    qed
    from swu_alternate_on_curve[OF em ne] X Y Zc show ?thesis by simp
  qed
qed

section \<open>Evaluating the instance\<close>

lemma example_fields:
  "ISO_3_A example_constants = 5" "ISO_3_B example_constants = 10"
  "ISO_3_Z example_constants = - 2" "sgn0 example_constants x = (x < 0)"
  by (simp_all add: example_constants_def)

lemma example_etas:
  "positive_eta_roots example_constants =
     [1 / (128 * 10 ^ 72), 3 / (128 * 10 ^ 72), 4 / (128 * 10 ^ 72), - 2 / (128 * 10 ^ 72)]"
  by (simp add: positive_eta_roots_def example_constants_def)

lemma example_coefficients:
  "ISO_3_MAP_COEFFICIENTS example_constants = [[1, 2, 3, 4], [5, 6, 1], [7, 8, 9, 1], [2, 3, 4, 1]]"
  by (simp add: example_constants_def)

lemma example_values_0:
  "swu_denominator example_constants 0 = - 10" "swu_numerator example_constants 0 = 10"
  "swu_v example_constants 0 = - 1000" "swu_u example_constants 0 = - 4000"
  by (simp_all add: swu_denominator_def swu_numerator_def swu_u_def swu_v_def example_fields Let_def)

lemma example_swu_0: "optimized_swu_G2 example_constants 0 = Inr (10, - 20, - 10)"
  by (simp add: optimized_swu_G2_cases example_values_0 example_sqrt_0 canonical_sign_def
      example_fields Let_def)

lemma example_exceptional: "exceptional_root_found example_constants"
  by (simp add: exceptional_root_found_def example_fields example_sqrt_0 Let_def)

lemma example_values_half:
  "swu_denominator example_constants (1 / 2) = 5 / 4"
  "swu_numerator example_constants (1 / 2) = 15 / 2"
  "swu_v example_constants (1 / 2) = 125 / 64" "swu_u example_constants (1 / 2) = 500"
  by (simp_all add: swu_denominator_def swu_numerator_def swu_u_def swu_v_def example_fields Let_def
      power2_eq_square power3_eq_cube)

lemma example_sqrt_half: "sqrt_division_FQ2 example_constants 500 (125 / 64) = (True, 16)"
  by (simp add: sqrt_division_FQ2_def example_constants_def Let_def power_divide)

lemma example_swu_half: "optimized_swu_G2 example_constants (1 / 2) = Inr (15 / 2, 20, 5 / 4)"
  by (simp add: optimized_swu_G2_cases example_values_half example_sqrt_half canonical_sign_def
      example_fields Let_def)

lemma example_values_1:
  "swu_denominator example_constants 1 = - 10" "swu_numerator example_constants 1 = 30"
  "swu_v example_constants 1 = - 1000" "swu_u example_constants 1 = 32000"
  by (simp_all add: swu_denominator_def swu_numerator_def swu_u_def swu_v_def example_fields Let_def)

lemma example_sqrt_1:
  "sqrt_division_FQ2 example_constants 32000 (- 1000) = (False, 1024 * 10 ^ 72)"
  by (simp add: sqrt_division_FQ2_def example_constants_def Let_def)

lemma example_swu_1: "optimized_swu_G2 example_constants 1 = Inr (- 60, - 160, - 10)"
  by (simp add: optimized_swu_G2_cases example_values_1 example_sqrt_1 canonical_sign_def
      example_fields Let_def example_etas eta_matches_def)

lemma example_swu_minus_1: "optimized_swu_G2 example_constants (- 1) = Inr (- 60, 160, - 10)"
proof -
  have v: "swu_denominator example_constants (- 1) = - 10"
    "swu_numerator example_constants (- 1) = 30"
    "swu_v example_constants (- 1) = - 1000" "swu_u example_constants (- 1) = 32000"
    by (simp_all add: swu_denominator_def swu_numerator_def swu_u_def swu_v_def example_fields Let_def)
  show ?thesis
    by (simp add: optimized_swu_G2_cases v example_sqrt_1 canonical_sign_def example_fields Let_def
      example_etas eta_matches_def)
qed

lemma example_values_2:
  "swu_denominator example_constants 2 = - 280" "swu_numerator example_constants 2 = 570"
  "swu_v example_constants 2 = - 21952000" "swu_u example_constants 2 = 189113000"
  by (simp_all add: swu_denominator_def swu_numerator_def swu_u_def swu_v_def example_fields Let_def)

lemma example_sqrt_2:
  "sqrt_division_FQ2 example_constants 189113000 (- 21952000)
     = (False, 189113000 ^ 2 * 21952000 ^ 22)"
  by (simp add: sqrt_division_FQ2_def example_constants_def Let_def)

lemma example_swu_2: "optimized_swu_G2 example_constants 2 = Inl SWU_failure"
  by (simp add: optimized_swu_G2_cases example_values_2 example_sqrt_2 Let_def
      example_etas eta_matches_def example_fields)

section \<open>The additive identity\<close>

text \<open>
  At \<open>t = 0\<close> every eta value passes the test, since both sides of it vanish: the loop
  cannot reach the \<^verbatim>\<open>raise\<close>.
\<close>

lemma eta_matches_zero: "eta_matches c 0 eta"
  by (simp add: eta_matches_def)

lemma swu_zero_returns:
  "\<exists>X Y. optimized_swu_G2 c 0 = Inr (X, Y, swu_denominator c 0)"
proof (cases "fst (sqrt_division_FQ2 c (swu_u c 0) (swu_v c 0))")
  case True
  then show ?thesis by (simp add: optimized_swu_G2_cases Let_def)
next
  case False
  have "List.find (eta_matches c 0) (positive_eta_roots c) = Some (FQ2 c [EV1 c, 0])"
    by (simp add: positive_eta_roots_def eta_matches_zero)
  with False show ?thesis by (simp add: optimized_swu_G2_cases Let_def)
qed

text \<open>
  The property of the constants cannot be dropped: where the exceptional denominator has
  no square root on the primary branch, the first eta value is taken at \<open>t = 0\<close> and
  the map returns \<open>(0, 0, Z * A)\<close>, which is off the curve when \<open>B\<close> is nonzero.
\<close>

lemma swu_zero_off_curve:
  assumes "\<not> exceptional_root_found c" and "ISO_3_Z c * ISO_3_A c \<noteq> 0" and "ISO_3_B c \<noteq> 0"
  shows "optimized_swu_G2 c 0 = Inr (0, 0, ISO_3_Z c * ISO_3_A c)"
    and "\<not> on_iso_curve c (0, 0, ISO_3_Z c * ISO_3_A c)"
proof -
  have z: "ISO_3_A c * (ISO_3_Z c * 0 ^ 2 + (ISO_3_Z c * 0 ^ 2) ^ 2) = 0" by simp
  note v = swu_exceptional_values[OF z assms(2)]
  have f: "List.find (eta_matches c 0) (positive_eta_roots c) = Some (FQ2 c [EV1 c, 0])"
    by (simp add: positive_eta_roots_def eta_matches_zero)
  from v assms(1) f show "optimized_swu_G2 c 0 = Inr (0, 0, ISO_3_Z c * ISO_3_A c)"
    by (simp add: optimized_swu_G2_cases Let_def canonical_sign_def)
  from assms(3) show "\<not> on_iso_curve c (0, 0, ISO_3_Z c * ISO_3_A c)"
    by (simp add: on_iso_curve_def)
qed

section \<open>Results that depend on the constants\<close>

text \<open>
  Whether the output is on the curve at an exceptional input, and whether its sign
  follows the input where its y-coordinate vanishes, depends on the values of the
  constants, which lie outside this development. The lemmas of this section state what
  holds for every set of constants.

  The third component of a returned triple is the denominator: \<open>Z * A\<close> when
  \<open>E = - (A * (Z * t\<^sup>2 + Z\<^sup>2 * t\<^sup>4))\<close> is zero, and \<open>E\<close> itself otherwise.
\<close>

lemma swu_denominator_selected:
  assumes "optimized_swu_G2 c t = Inr (X, Y, Zc)"
  shows "Zc = (if - (ISO_3_A c * (ISO_3_Z c * t ^ 2 + ISO_3_Z c ^ 2 * t ^ 4)) = 0
               then ISO_3_Z c * ISO_3_A c
               else - (ISO_3_A c * (ISO_3_Z c * t ^ 2 + ISO_3_Z c ^ 2 * t ^ 4)))"
  using swu_returns_denominator[OF assms] swu_denominator_cases[of c t] by simp

text \<open>
  At \<open>t = 0\<close>, for \<open>Z * A\<close> and \<open>B\<close> nonzero, the returned triple is on the curve
  exactly when the exceptional denominator has its square root on the primary branch.
\<close>

lemma swu_zero_on_curve_iff:
  assumes "ISO_3_Z c * ISO_3_A c \<noteq> 0" and "ISO_3_B c \<noteq> 0"
  shows "(\<exists>p. optimized_swu_G2 c 0 = Inr p \<and> on_iso_curve c p) \<longleftrightarrow> exceptional_root_found c"
proof
  assume "\<exists>p. optimized_swu_G2 c 0 = Inr p \<and> on_iso_curve c p"
  then obtain p where p: "optimized_swu_G2 c 0 = Inr p" "on_iso_curve c p" by blast
  show "exceptional_root_found c"
  proof (rule ccontr)
    assume "\<not> exceptional_root_found c"
    from swu_zero_off_curve[OF this assms] p show False by simp
  qed
next
  assume e: "exceptional_root_found c"
  from swu_zero_returns obtain X Y where r: "optimized_swu_G2 c 0 = Inr (X, Y, swu_denominator c 0)"
    by blast
  have D: "swu_denominator c 0 = ISO_3_Z c * ISO_3_A c"
    by (simp add: swu_denominator_def)
  from swu_returned_on_curve[OF r _ disjI1[OF e]] D assms(1)
  have "on_iso_curve c (X, Y, swu_denominator c 0)" by simp
  with r show "\<exists>p. optimized_swu_G2 c 0 = Inr p \<and> on_iso_curve c p" by blast
qed

text \<open>
  A returned y-coordinate is nonzero whenever the triple is on the curve and the cubic
  \<open>x\<^sup>3 + A * x + B\<close> has no root in the field, that is, the curve has no point of
  order two: a property of the constants \<open>A\<close> and \<open>B\<close> alone.
\<close>

lemma on_iso_curve_y_nonzero:
  assumes "on_iso_curve c (X, Y, Zc)" and "Zc \<noteq> 0"
    and "\<forall>x. x ^ 3 + ISO_3_A c * x + ISO_3_B c \<noteq> 0"
  shows "Y \<noteq> 0"
proof
  assume "Y = 0"
  with assms(1) have "(X / Zc) ^ 3 + ISO_3_A c * (X / Zc) + ISO_3_B c = 0"
    by (simp add: on_iso_curve_def)
  with assms(3) show False by blast
qed

text \<open>
  Where the returned y-coordinate is nonzero, the sign bit of the input equals the sign
  bit of the affine y-coordinate, for a \<open>sgn0\<close> that tells a nonzero element from its
  negative. Where it is zero, canonicalization cannot change the sign.
\<close>

lemma swu_sign_of_nonzero_y:
  assumes ret: "optimized_swu_G2 c t = Inr (X, Y, Zc)"
    and nz: "Zc \<noteq> 0"
    and y: "Y \<noteq> 0"
    and odd: "\<forall>x. x \<noteq> 0 \<longrightarrow> sgn0 c (- x) \<noteq> sgn0 c x"
  shows "sgn0 c t = sgn0 c (Y / Zc)"
proof -
  have canon: "sgn0 c t = sgn0 c (canonical_sign c t w)" if "canonical_sign c t w \<noteq> 0" for w
  proof (cases "sgn0 c t = sgn0 c w")
    case True
    then show ?thesis by (simp add: canonical_sign_def)
  next
    case False
    with that have "w \<noteq> 0" by (simp add: canonical_sign_def)
    with odd have "sgn0 c (- w) \<noteq> sgn0 c w" by blast
    with False show ?thesis by (auto simp: canonical_sign_def)
  qed
  have Zc: "Zc = swu_denominator c t" using ret by (rule swu_returns_denominator)
  from ret obtain w where Y: "Y = canonical_sign c t w * swu_denominator c t"
    by (auto simp: optimized_swu_G2_cases Let_def split: if_splits option.splits)
  with y have "canonical_sign c t w \<noteq> 0" by auto
  from canon[OF this] Y Zc nz show ?thesis by simp
qed

section \<open>Claims about the SWU map\<close>

text \<open>
  C5. The SWU map raises exactly when the primary square root division fails and none
  of the four eta values passes the test
  \<open>(eta * (y0 * t\<^sup>3))\<^sup>2 * v - (Z * t\<^sup>2)\<^sup>3 * u = 0\<close>; in every other case it returns a
  triple.
\<close>

theorem optimized_swu_G2_raises_iff:
  "(optimized_swu_G2 c t = Inl SWU_failure \<longleftrightarrow>
      \<not> fst (sqrt_division_FQ2 c (swu_u c t) (swu_v c t))
      \<and> (\<forall>eta \<in> set (positive_eta_roots c). \<not> eta_matches c t eta))
   \<and> (optimized_swu_G2 c t \<noteq> Inl SWU_failure \<longrightarrow>
        (\<exists>X Y Zc. optimized_swu_G2 c t = Inr (X, Y, Zc)))
   \<and> length (positive_eta_roots c) = 4"
proof (cases "fst (sqrt_division_FQ2 c (swu_u c t) (swu_v c t))")
  case True
  then show ?thesis by (simp add: optimized_swu_G2_cases Let_def positive_eta_roots_def)
next
  case False
  show ?thesis
  proof (cases "List.find (eta_matches c t) (positive_eta_roots c)")
    case None
    then have "\<forall>eta \<in> set (positive_eta_roots c). \<not> eta_matches c t eta"
      by (simp add: find_None_iff)
    with None False show ?thesis
      by (simp add: optimized_swu_G2_cases Let_def) (simp add: positive_eta_roots_def)
  next
    case (Some eta)
    then have "eta \<in> set (positive_eta_roots c)" and "eta_matches c t eta"
      by (auto simp: find_Some_iff)
    then have "\<not> (\<forall>eta \<in> set (positive_eta_roots c). \<not> eta_matches c t eta)" by blast
    with Some False show ?thesis
      by (simp add: optimized_swu_G2_cases Let_def) (simp add: positive_eta_roots_def)
  qed
qed

theorem optimized_swu_G2_raises_iff_witness:
  "optimized_swu_G2 example_constants 2 = Inl SWU_failure
   \<and> \<not> fst (sqrt_division_FQ2 example_constants (swu_u example_constants 2)
              (swu_v example_constants 2))
   \<and> \<not> (\<exists>eta \<in> set (positive_eta_roots example_constants). eta_matches example_constants 2 eta)
   \<and> optimized_swu_G2 example_constants 1 \<noteq> Inl SWU_failure
   \<and> (\<exists>X Y Zc. optimized_swu_G2 example_constants 1 = Inr (X, Y, Zc))"
  using optimized_swu_G2_raises_iff[of example_constants 2]
    optimized_swu_G2_raises_iff[of example_constants 1] example_swu_2 example_swu_1
  by simp

text \<open>
  C9. The third component of a returned triple is nonzero: it is \<open>- (A * s)\<close> with
  \<open>s = Z * t\<^sup>2 + (Z * t\<^sup>2)\<^sup>2\<close> nonzero, or it is the constant \<open>Z * A\<close>, which is
  nonzero.
\<close>

theorem optimized_swu_G2_denominator_nonzero:
  assumes ret: "optimized_swu_G2 c t = Inr (X, Y, Zc)"
    and nz: "ISO_3_Z c * ISO_3_A c \<noteq> 0"
  shows "let s = ISO_3_Z c * t ^ 2 + (ISO_3_Z c * t ^ 2) ^ 2 in
           Zc \<noteq> 0 \<and> (Zc = - (ISO_3_A c * s) \<and> s \<noteq> 0 \<or> Zc = ISO_3_Z c * ISO_3_A c)"
proof -
  have "Zc = swu_denominator c t" using ret by (rule swu_returns_denominator)
  with nz show ?thesis
    by (auto simp: swu_denominator_def Let_def)
qed

theorem optimized_swu_G2_denominator_nonzero_witness:
  "optimized_swu_G2 example_constants 1 = Inr (- 60, - 160, - 10)
   \<and> ISO_3_Z example_constants * ISO_3_A example_constants \<noteq> 0
   \<and> (- 10 :: rat) \<noteq> 0
   \<and> ((- 10 :: rat) = - (ISO_3_A example_constants
           * (ISO_3_Z example_constants * 1 ^ 2 + (ISO_3_Z example_constants * 1 ^ 2) ^ 2))
        \<and> ISO_3_Z example_constants * 1 ^ 2 + (ISO_3_Z example_constants * 1 ^ 2) ^ 2 \<noteq> 0
      \<or> (- 10 :: rat) = ISO_3_Z example_constants * ISO_3_A example_constants)"
proof -
  have nz: "ISO_3_Z example_constants * ISO_3_A example_constants \<noteq> 0"
    by (simp add: example_fields)
  from optimized_swu_G2_denominator_nonzero[OF example_swu_1 nz, unfolded Let_def]
    example_swu_1 nz
  show ?thesis by blast
qed

section \<open>The 3-isogeny map: Horner evaluation\<close>

lemma short_list_cases:
  assumes "k \<noteq> []" and "length k \<le> 4"
  obtains a where "k = [a]"
  | a b where "k = [a, b]"
  | a b d where "k = [a, b, d]"
  | a b d e where "k = [a, b, d, e]"
proof (cases k)
  case Nil
  with assms show ?thesis by simp
next
  case (Cons a k1)
  note c1 = this
  show ?thesis
  proof (cases k1)
    case Nil
    with c1 that(1) show ?thesis by simp
  next
    case (Cons b k2)
    note c2 = this
    show ?thesis
    proof (cases k2)
      case Nil
      with c1 c2 that(2) show ?thesis by simp
    next
      case (Cons d k3)
      note c3 = this
      show ?thesis
      proof (cases k3)
        case Nil
        with c1 c2 c3 that(3) show ?thesis by simp
      next
        case (Cons e k4)
        with c1 c2 c3 assms(2) have "k4 = []" by simp
        with c1 c2 c3 Cons that(4) show ?thesis by simp
      qed
    qed
  qed
qed

text \<open>
  One row of the table: started on the leading coefficient, the inner loop leaves the
  homogenized polynomial of the row in \<^verbatim>\<open>mapped_values[i]\<close>.
\<close>

lemma horner_row:
  assumes "k \<noteq> []" and "length k \<le> 4" and "i < length mv" and "mv ! i = last k"
  shows "horner_loop x [z, z ^ 2, z ^ 3] i 0 (rev (butlast k)) mv =
           Inr (mv[i := homogenized k x z])"
  using assms(1,2)
proof (cases k rule: short_list_cases)
  case (1 a)
  with assms(4) have "mv ! i = a" by simp
  then have "mv[i := a] = mv" using list_update_id[of mv i] by simp
  with 1 show ?thesis by (simp add: homogenized_def)
next
  case (2 a b)
  with assms(3,4) show ?thesis
    by (simp add: homogenized_def algebra_simps)
next
  case (3 a b d)
  with assms(3,4) show ?thesis
    by (simp add: homogenized_def lessThan_Suc algebra_simps power2_eq_square)
next
  case (4 a b d e)
  with assms(3,4) show ?thesis
    by (simp add: homogenized_def lessThan_Suc algebra_simps power2_eq_square power3_eq_cube)
qed

lemma coefficients_loop_four:
  assumes "\<forall>k \<in> {k1, k2, k3, k4}. k \<noteq> [] \<and> length k \<le> 4"
  shows "coefficients_loop x [z, z ^ 2, z ^ 3] 0 [k1, k2, k3, k4] [0, 0, 0, 0] =
           Inr [homogenized k1 x z, homogenized k2 x z, homogenized k3 x z, homogenized k4 x z]"
proof -
  from assms have k: "k1 \<noteq> []" "length k1 \<le> 4" "k2 \<noteq> []" "length k2 \<le> 4"
    "k3 \<noteq> []" "length k3 \<le> 4" "k4 \<noteq> []" "length k4 \<le> 4" by simp_all
  show ?thesis
    by (simp add: k horner_row)
qed

lemma horner_loop_length:
  "horner_loop x zp i j ks mv = Inr mv' \<Longrightarrow> length mv' = length mv"
  by (induction ks arbitrary: j mv) (auto split: if_splits)

lemma coefficients_loop_length:
  "coefficients_loop x zp i ks mv = Inr mv' \<Longrightarrow> length mv' = length mv"
proof (induction ks arbitrary: i mv)
  case Nil
  then show ?case by simp
next
  case (Cons k ks)
  then show ?case
    by (auto split: if_splits sum.splits dest!: horner_loop_length)
qed

section \<open>Claims about the 3-isogeny map\<close>

text \<open>
  C7. Over a table of four rows, each of one to four coefficients, the isogeny map
  evaluates each row by Horner's method to its homogenized polynomial, the sum over \<open>j\<close>
  of \<open>coeff j * x ^ j * z ^ (d - j)\<close>; it multiplies the y-numerator by \<open>y\<close> and the
  y-denominator by \<open>z\<close>, and returns \<open>X = xNum * yDen\<close>, \<open>Y = yNum * xDen\<close> and
  \<open>Z = xDen * yDen\<close>. Where the denominators are nonzero the affine coordinates are
  \<open>xNum / xDen\<close> and \<open>y * yNum / (z * yDen)\<close>, on the polynomial values.
\<close>

theorem iso_map_G2_horner:
  assumes "ISO_3_MAP_COEFFICIENTS c = [k1, k2, k3, k4]"
    and "\<forall>k \<in> {k1, k2, k3, k4}. k \<noteq> [] \<and> length k \<le> 4"
  shows "let xNum = homogenized k1 x z; xDen = homogenized k2 x z;
             yNum = homogenized k3 x z * y; yDen = homogenized k4 x z * z
         in iso_map_G2 c x y z = Inr (xNum * yDen, yNum * xDen, xDen * yDen)
            \<and> (homogenized k2 x z \<noteq> 0 \<and> z * homogenized k4 x z \<noteq> 0 \<longrightarrow>
                 (xNum * yDen) / (xDen * yDen) = homogenized k1 x z / homogenized k2 x z
               \<and> (yNum * xDen) / (xDen * yDen) = y * homogenized k3 x z / (z * homogenized k4 x z))"
proof -
  have "iso_map_G2 c x y z =
      Inr (homogenized k1 x z * (homogenized k4 x z * z),
           homogenized k3 x z * y * homogenized k2 x z,
           homogenized k2 x z * (homogenized k4 x z * z))"
    unfolding iso_map_G2_def assms(1) Let_def coefficients_loop_four[OF assms(2)] by simp
  then show ?thesis
    by (simp add: Let_def field_simps)
qed

theorem iso_map_G2_horner_witness:
  "ISO_3_MAP_COEFFICIENTS example_constants = [[1, 2, 3, 4], [5, 6, 1], [7, 8, 9, 1], [2, 3, 4, 1]]
   \<and> list_all (\<lambda>k. k \<noteq> [] \<and> length k \<le> 4) [[1, 2, 3, 4], [5, 6, 1], [7, 8, 9, 1], [2, 3, 4, 1 :: rat]]
   \<and> iso_map_G2 example_constants 2 5 3 = Inr (64452, 190825, 41820)
   \<and> homogenized [5, 6, 1] 2 (3 :: rat) \<noteq> 0 \<and> 3 * homogenized [2, 3, 4, 1] 2 (3 :: rat) \<noteq> 0
   \<and> (64452 :: rat) / 41820 = homogenized [1, 2, 3, 4] 2 3 / homogenized [5, 6, 1] 2 3
   \<and> (190825 :: rat) / 41820 = 5 * homogenized [7, 8, 9, 1] 2 3 / (3 * homogenized [2, 3, 4, 1] 2 3)"
proof -
  have wf: "\<forall>k \<in> {[1, 2, 3, 4], [5, 6, 1], [7, 8, 9, 1], [2, 3, 4, 1 :: rat]}. k \<noteq> [] \<and> length k \<le> 4"
    by simp
  have h: "homogenized [1, 2, 3, 4] 2 (3 :: rat) = 131" "homogenized [5, 6, 1] 2 (3 :: rat) = 85"
    "homogenized [7, 8, 9, 1] 2 (3 :: rat) = 449" "homogenized [2, 3, 4, 1] 2 (3 :: rat) = 164"
    by (simp_all add: homogenized_def lessThan_Suc)
  from iso_map_G2_horner[OF example_coefficients wf, of 2 3 5, unfolded Let_def]
  show ?thesis using example_coefficients by (simp add: h)
qed

text \<open>
  C10. With \<open>z = 0\<close> the first and the third component of a returned triple are zero,
  since the y-denominator is multiplied by \<open>z\<close>; and over a well-formed table the map
  does return, so that a degenerate input gives a degenerate output, not an error.
\<close>

theorem iso_map_G2_degenerate:
  "(\<forall>X Y Zc. iso_map_G2 c x y 0 = Inr (X, Y, Zc) \<longrightarrow> X = 0 \<and> Zc = 0)
   \<and> (coefficients_well_formed (ISO_3_MAP_COEFFICIENTS c) \<longrightarrow>
        (\<exists>Y. iso_map_G2 c x y 0 = Inr (0, Y, 0)))"
proof (intro conjI allI impI)
  fix X Y Zc
  assume a: "iso_map_G2 c x y 0 = Inr (X, Y, Zc)"
  then obtain mv where mv: "coefficients_loop x [0, 0 ^ 2, 0 ^ 3] 0 (ISO_3_MAP_COEFFICIENTS c) [0, 0, 0, 0] = Inr mv"
    by (auto simp: iso_map_G2_def Let_def split: sum.splits)
  from coefficients_loop_length[OF mv] have len: "length mv = 4" by simp
  from a mv len show "X = 0" and "Zc = 0"
    by (simp_all add: iso_map_G2_def Let_def)
next
  assume "coefficients_well_formed (ISO_3_MAP_COEFFICIENTS c)"
  then obtain k1 k2 k3 k4 where ks: "ISO_3_MAP_COEFFICIENTS c = [k1, k2, k3, k4]"
    and wf: "\<forall>k \<in> {k1, k2, k3, k4}. k \<noteq> [] \<and> length k \<le> 4"
    by (auto simp: coefficients_well_formed_def length_Suc_conv numeral_eq_Suc)
  show "\<exists>Y. iso_map_G2 c x y 0 = Inr (0, Y, 0)"
    unfolding iso_map_G2_def ks Let_def coefficients_loop_four[OF wf] by simp
qed

theorem iso_map_G2_degenerate_witness:
  "coefficients_well_formed (ISO_3_MAP_COEFFICIENTS example_constants)
   \<and> (\<exists>Y. iso_map_G2 example_constants 2 5 0 = Inr (0, Y, 0))"
proof -
  have wf: "coefficients_well_formed (ISO_3_MAP_COEFFICIENTS example_constants)"
    by (simp add: coefficients_well_formed_def example_coefficients)
  with iso_map_G2_degenerate[of example_constants 2 5] show ?thesis by blast
qed

end
